theory Spec2Isabelle
  imports Main "HOL-Library.Product_Lexorder" "HOL-Library.Char_ord" "HOL-Library.List_Lexorder"
begin

section \<open>The Contact table (DatabaseManager)\<close>

text \<open>
  One row of the table \<open>Contact\<close> created by \<open>DatabaseManager.createTables\<close>.
  The column \<open>id\<close> is the field \<open>cid\<close> (the name \<open>id\<close> is HOL's identity function).
  A nullable TEXT or INTEGER column is an \<open>option\<close>, \<open>None\<close> being SQL NULL and JavaScript
  \<open>null\<close>; \<open>Some []\<close> is the empty string. Timestamps (\<open>CURRENT_TIMESTAMP\<close>, one-second
  resolution) are natural numbers.
\<close>

datatype precedence = Primary | Secondary

record contact =
  cid :: nat
  phoneNumber :: "string option"
  email :: "string option"
  linkedId :: "nat option"
  linkPrecedence :: precedence
  createdAt :: nat
  updatedAt :: nat
  deletedAt :: "nat option"

text \<open>
  The table: its rows in rowid order (the order of a table scan), and the counter that
  \<open>AUTOINCREMENT\<close> keeps of the largest id ever handed out.
\<close>

record database =
  rows :: "contact list"
  seq :: nat

text \<open>The text stored in the column \<open>linkPrecedence\<close>.\<close>

fun precedence_text :: "precedence \<Rightarrow> string" where
  "precedence_text Primary = ''primary''"
| "precedence_text Secondary = ''secondary''"

text \<open>
  Rank of a row under \<open>ORDER BY linkPrecedence DESC\<close>: the greater text comes first.
\<close>

fun linkPrecedence_desc :: "precedence \<Rightarrow> nat" where
  "linkPrecedence_desc Secondary = 0"
| "linkPrecedence_desc Primary = 1"

text \<open>JavaScript truthiness of a value that is \<open>null\<close> or a string.\<close>

fun truthy :: "string option \<Rightarrow> bool" where
  "truthy None = False"
| "truthy (Some s) = (s \<noteq> [])"

text \<open>
  What the code leaves to its environment. An \<open>ORDER BY\<close> says nothing about rows that
  agree on all its keys: SQLite returns them in the order of its scan. \<open>findOrder\<close> and
  \<open>groupOrder\<close> rank the rows for the two ordered queries; rows that tie on the query's keys
  come back by ascending rank, and every order of the ties is that of some rank.
  \<open>parseDate\<close> is \<open>new Date(createdAt).getTime()\<close>: JavaScript reads the zone-less text in
  the time zone of the process, so it need not preserve the order of the stored times.
\<close>

record runtime =
  findOrder :: "contact \<Rightarrow> nat"
  groupOrder :: "contact \<Rightarrow> nat"
  parseDate :: "nat \<Rightarrow> nat"

text \<open>\<open>this.get('SELECT * FROM Contact WHERE id = ?', [i])\<close>\<close>

definition selectById :: "nat \<Rightarrow> database \<Rightarrow> contact option" where
  "selectById i db = find (\<lambda>c. cid c = i) (rows db)"

definition max_id :: "contact list \<Rightarrow> nat" where
  "max_id rs = fold max (map cid rs) 0"

text \<open>
  \<open>findContactsByEmailOrPhone\<close>: a condition is pushed only for a truthy argument; no
  condition gives the empty list without a query. \<open>ORDER BY createdAt ASC\<close>; rows of equal
  \<open>createdAt\<close> come in the order the engine gives them.
\<close>

definition findContactsByEmailOrPhone ::
    "runtime \<Rightarrow> string option \<Rightarrow> string option \<Rightarrow> database \<Rightarrow> contact list" where
  "findContactsByEmailOrPhone rt e p db =
     (if \<not> truthy e \<and> \<not> truthy p then []
      else sort_key (\<lambda>c. (createdAt c, findOrder rt c))
             (filter (\<lambda>c. ((truthy e \<and> email c = e) \<or> (truthy p \<and> phoneNumber c = p))
                           \<and> deletedAt c = None)
                (rows db)))"

text \<open>
  \<open>createContact\<close>: the INSERT at time \<open>now\<close>, then the SELECT of the new row by its id.
\<close>

definition createContact ::
    "string option \<Rightarrow> string option \<Rightarrow> nat option \<Rightarrow> precedence \<Rightarrow> nat \<Rightarrow> database
       \<Rightarrow> contact option \<times> database" where
  "createContact e p l prec now db =
     (let new_id = Suc (max (seq db) (max_id (rows db)));
          c = \<lparr>cid = new_id, phoneNumber = p, email = e, linkedId = l, linkPrecedence = prec,
               createdAt = now, updatedAt = now, deletedAt = None\<rparr>;
          db' = db\<lparr>rows := rows db @ [c], seq := new_id\<rparr>
      in (selectById new_id db', db'))"

text \<open>\<open>updateContactLink\<close>: the UPDATE at time \<open>now\<close>, then the SELECT of the row.\<close>

definition updateContactLink ::
    "nat \<Rightarrow> nat option \<Rightarrow> precedence \<Rightarrow> nat \<Rightarrow> database \<Rightarrow> contact option \<times> database" where
  "updateContactLink i l prec now db =
     (let db' = db\<lparr>rows :=
                  map (\<lambda>c. if cid c = i
                            then c\<lparr>linkedId := l, linkPrecedence := prec, updatedAt := now\<rparr>
                            else c)
                      (rows db)\<rparr>
      in (selectById i db', db'))"

text \<open>
  \<open>getLinkedContacts\<close>: \<open>WHERE (id = ? OR linkedId = ?) AND deletedAt IS NULL
  ORDER BY linkPrecedence DESC, createdAt ASC\<close>. A NULL parameter matches no row. Rows of
  equal precedence and \<open>createdAt\<close> come in the order the engine gives them.
\<close>

definition getLinkedContacts :: "runtime \<Rightarrow> nat option \<Rightarrow> database \<Rightarrow> contact list" where
  "getLinkedContacts rt pid db =
     (case pid of
        None \<Rightarrow> []
      | Some i \<Rightarrow>
          sort_key (\<lambda>c. (linkPrecedence_desc (linkPrecedence c), createdAt c, groupOrder rt c))
            (filter (\<lambda>c. (cid c = i \<or> linkedId c = Some i) \<and> deletedAt c = None) (rows db)))"

section \<open>ContactService\<close>

datatype error = InvalidPhoneNumber | TypeError

record response =
  primaryContactId :: "nat option"
  emails :: "string list"
  phoneNumbers :: "string list"
  secondaryContactIds :: "nat list"

record newInfo =
  needsEmail :: bool
  needsPhone :: bool

datatype plan =
    ReturnExisting "contact option"
  | MergePrimaries "contact list" "contact list"
  | CreateSecondary contact newInfo
  | LinkToExistingPrimary "nat option" newInfo
  | CreateNewPrimary

text \<open>The regular expression \<open>/^\d{10}$/\<close>: exactly ten characters, each a decimal digit.\<close>

definition is_digit :: "char \<Rightarrow> bool" where
  "is_digit c = (c \<in> set ''0123456789'')"

definition phone_regex :: "string \<Rightarrow> bool" where
  "phone_regex s = (length s = 10 \<and> list_all is_digit s)"

text \<open>\<open>values.filter(Boolean)\<close> on a list of strings and nulls.\<close>

definition filter_Boolean :: "string option list \<Rightarrow> string list" where
  "filter_Boolean vs = map the (filter truthy vs)"

text \<open>\<open>[...new Set(xs)]\<close>: the first occurrence of each value, in insertion order.\<close>

fun new_Set :: "'a list \<Rightarrow> 'a list \<Rightarrow> 'a list" where
  "new_Set seen [] = seen"
| "new_Set seen (x # xs) = (if x \<in> set seen then new_Set seen xs else new_Set (seen @ [x]) xs)"

definition spread_Set :: "'a list \<Rightarrow> 'a list" where
  "spread_Set xs = new_Set [] xs"

definition buildResponse :: "runtime \<Rightarrow> nat option \<Rightarrow> database \<Rightarrow> response" where
  "buildResponse rt pid db =
     (let linkedContacts = getLinkedContacts rt pid db
      in \<lparr>primaryContactId = pid,
          emails = spread_Set (filter_Boolean (map email linkedContacts)),
          phoneNumbers = spread_Set (filter_Boolean (map phoneNumber linkedContacts)),
          secondaryContactIds =
            map cid (filter (\<lambda>c. linkPrecedence c = Secondary) linkedContacts)\<rparr>)"

text \<open>
  \<open>createNewPrimaryContact\<close>. Reading \<open>.id\<close> of a missing row would be a TypeError.
\<close>

definition createNewPrimaryContact ::
    "string option \<Rightarrow> string option \<Rightarrow> nat \<Rightarrow> database \<Rightarrow> (error + response) \<times> database" where
  "createNewPrimaryContact e p now db =
     (case createContact e p None Primary now db of
        (None, db') \<Rightarrow> (Inl TypeError, db')
      | (Some newContact, db') \<Rightarrow>
          (Inr \<lparr>primaryContactId = Some (cid newContact),
                emails = (if truthy e then [the e] else []),
                phoneNumbers = (if truthy p then [the p] else []),
                secondaryContactIds = []\<rparr>, db'))"

definition findPrimaryInChain :: "contact \<Rightarrow> contact list \<Rightarrow> contact option" where
  "findPrimaryInChain c allContacts =
     (if linkPrecedence c = Primary then Some c
      else find (\<lambda>d. Some (cid d) = linkedId c \<and> linkPrecedence d = Primary) allContacts)"

text \<open>
  \<open>determineNewInfo\<close>. The source's \<open>email && !existingEmails.includes(email)\<close> is only ever
  tested for truthiness, so it is a boolean here.
\<close>

definition determineNewInfo :: "contact list \<Rightarrow> string option \<Rightarrow> string option \<Rightarrow> newInfo" where
  "determineNewInfo existingContacts e p =
     \<lparr>needsEmail = (truthy e \<and> the e \<notin> set (filter_Boolean (map email existingContacts))),
      needsPhone = (truthy p \<and> the p \<notin> set (filter_Boolean (map phoneNumber existingContacts)))\<rparr>"

definition analyzeContacts :: "contact list \<Rightarrow> string option \<Rightarrow> string option \<Rightarrow> plan" where
  "analyzeContacts existingContacts e p =
     (let primaryContacts = filter (\<lambda>c. linkPrecedence c = Primary) existingContacts;
          secondaryContacts = filter (\<lambda>c. linkPrecedence c = Secondary) existingContacts;
          exactEmailMatch = find (\<lambda>c. email c = e) existingContacts;
          exactPhoneMatch = find (\<lambda>c. phoneNumber c = p) existingContacts;
          exact = (case (exactEmailMatch, exactPhoneMatch) of
                     (Some em, Some pm) \<Rightarrow> if cid em = cid pm then Some em else None
                   | _ \<Rightarrow> None)
      in case exact of
           Some em \<Rightarrow> ReturnExisting (findPrimaryInChain em existingContacts)
         | None \<Rightarrow>
            (case primaryContacts of
               _ # _ # _ \<Rightarrow> MergePrimaries primaryContacts secondaryContacts
             | [p0] \<Rightarrow> CreateSecondary p0 (determineNewInfo existingContacts e p)
             | [] \<Rightarrow>
                (case secondaryContacts of
                   s0 # _ \<Rightarrow>
                     LinkToExistingPrimary (linkedId s0) (determineNewInfo existingContacts e p)
                 | [] \<Rightarrow> CreateNewPrimary)))"

text \<open>
  The writes of one call happen one after the other, each at the time the clock shows
  then: \<open>clk k\<close> is the time of the call's \<open>k\<close>-th write. The state of a loop is the number
  of writes done so far and the table.
\<close>

definition relink :: "(nat \<Rightarrow> nat) \<Rightarrow> nat \<Rightarrow> contact \<Rightarrow> nat \<times> database \<Rightarrow> nat \<times> database" where
  "relink clk m c s =
     (Suc (fst s), snd (updateContactLink (cid c) (Some m) Secondary (clk (fst s)) (snd s)))"

text \<open>
  The body shared by \<open>createSecondaryContact\<close>, \<open>linkToExistingPrimary\<close> and the end of
  \<open>mergePrimaryContacts\<close>: one new secondary holding the missing fields, if any is missing.
\<close>

definition createIfNeeded ::
    "newInfo \<Rightarrow> string option \<Rightarrow> string option \<Rightarrow> nat option \<Rightarrow> nat \<Rightarrow> database \<Rightarrow> database" where
  "createIfNeeded needsNewInfo e p pid now db =
     (if needsEmail needsNewInfo \<or> needsPhone needsNewInfo
      then snd (createContact (if needsEmail needsNewInfo then e else None)
                              (if needsPhone needsNewInfo then p else None)
                              pid Secondary now db)
      else db)"

text \<open>
  \<open>primaryContacts.reduce(...)\<close>, on a list that is not empty: the comparison is
  \<open>new Date(current.createdAt) < new Date(oldest.createdAt)\<close>.
\<close>

definition oldest_of :: "runtime \<Rightarrow> contact \<Rightarrow> contact list \<Rightarrow> contact" where
  "oldest_of rt p0 ps =
     fold (\<lambda>current oldest.
             if parseDate rt (createdAt current) < parseDate rt (createdAt oldest)
             then current else oldest) ps p0"

definition mergePrimaryContacts ::
    "runtime \<Rightarrow> contact list \<Rightarrow> contact list \<Rightarrow> string option \<Rightarrow> string option
       \<Rightarrow> (nat \<Rightarrow> nat) \<Rightarrow> database \<Rightarrow> (error + response) \<times> database" where
  "mergePrimaryContacts rt primaryContacts secondaryContacts e p clk db =
     (case primaryContacts of
        [] \<Rightarrow> (Inl TypeError, db)
      | p0 # ps \<Rightarrow>
         (let mainPrimary = oldest_of rt p0 ps;
              s1 = fold (\<lambda>primary s. if cid primary \<noteq> cid mainPrimary
                                      then relink clk (cid mainPrimary) primary s else s)
                        primaryContacts (0, db);
              s2 = fold (\<lambda>secondary s. if linkedId secondary \<noteq> Some (cid mainPrimary)
                                        then relink clk (cid mainPrimary) secondary s else s)
                        secondaryContacts s1;
              allContacts = primaryContacts @ secondaryContacts;
              needsNewInfo = determineNewInfo allContacts e p;
              db' = createIfNeeded needsNewInfo e p (Some (cid mainPrimary)) (clk (fst s2)) (snd s2)
          in (Inr (buildResponse rt (Some (cid mainPrimary)) db'), db')))"

definition createSecondaryContact ::
    "runtime \<Rightarrow> contact \<Rightarrow> newInfo \<Rightarrow> string option \<Rightarrow> string option \<Rightarrow> (nat \<Rightarrow> nat)
       \<Rightarrow> database \<Rightarrow> (error + response) \<times> database" where
  "createSecondaryContact rt primaryContact needsNewInfo e p clk db =
     (let db' = createIfNeeded needsNewInfo e p (Some (cid primaryContact)) (clk 0) db
      in (Inr (buildResponse rt (Some (cid primaryContact)) db'), db'))"

definition linkToExistingPrimary ::
    "runtime \<Rightarrow> nat option \<Rightarrow> newInfo \<Rightarrow> string option \<Rightarrow> string option \<Rightarrow> (nat \<Rightarrow> nat)
       \<Rightarrow> database \<Rightarrow> (error + response) \<times> database" where
  "linkToExistingPrimary rt primaryId needsNewInfo e p clk db =
     (let db' = createIfNeeded needsNewInfo e p primaryId (clk 0) db
      in (Inr (buildResponse rt primaryId db'), db'))"

fun executeConsolidation ::
    "runtime \<Rightarrow> plan \<Rightarrow> string option \<Rightarrow> string option \<Rightarrow> (nat \<Rightarrow> nat) \<Rightarrow> database
       \<Rightarrow> (error + response) \<times> database" where
  "executeConsolidation rt (ReturnExisting None) e p clk db = (Inl TypeError, db)"
| "executeConsolidation rt (ReturnExisting (Some primaryContact)) e p clk db =
     (Inr (buildResponse rt (Some (cid primaryContact)) db), db)"
| "executeConsolidation rt (MergePrimaries ps ss) e p clk db =
     mergePrimaryContacts rt ps ss e p clk db"
| "executeConsolidation rt (CreateSecondary pc ni) e p clk db =
     createSecondaryContact rt pc ni e p clk db"
| "executeConsolidation rt (LinkToExistingPrimary i ni) e p clk db =
     linkToExistingPrimary rt i ni e p clk db"
| "executeConsolidation rt CreateNewPrimary e p clk db = createNewPrimaryContact e p (clk 0) db"

text \<open>
  \<open>identifyContact(email, phoneNumber)\<close> on the table \<open>db\<close>: the outcome (the thrown error or
  the returned view) and the table afterwards.
\<close>

definition identifyContact ::
    "runtime \<Rightarrow> (nat \<Rightarrow> nat) \<Rightarrow> database \<Rightarrow> string option \<Rightarrow> string option
       \<Rightarrow> (error + response) \<times> database" where
  "identifyContact rt clk db e p =
     (if truthy p \<and> \<not> phone_regex (the p) then (Inl InvalidPhoneNumber, db)
      else
        (let existingContacts = findContactsByEmailOrPhone rt e p db
         in if length existingContacts = 0 then createNewPrimaryContact e p (clk 0) db
            else executeConsolidation rt (analyzeContacts existingContacts e p) e p clk db))"

section \<open>Notions used in the statements and proofs\<close>

text \<open>A returned view lists no email and no phone number twice; a thrown error has no view.\<close>

definition view_distinct :: "(error + response) \<Rightarrow> bool" where
  "view_distinct r =
     (case r of Inl _ \<Rightarrow> True | Inr v \<Rightarrow> distinct (emails v) \<and> distinct (phoneNumbers v))"

text \<open>
  \<open>relinked S m r r'\<close>: the row \<open>r'\<close> is what the row \<open>r\<close> has become after the updates
  \<open>updateContactLink(i, m, 'secondary')\<close> for the ids \<open>i\<close> of \<open>S\<close>, at some times.
\<close>

definition relinked :: "nat set \<Rightarrow> nat \<Rightarrow> contact \<Rightarrow> contact \<Rightarrow> bool" where
  "relinked S m r r' =
     (if cid r \<in> S
      then (\<exists>t. r' = r\<lparr>linkedId := Some m, linkPrecedence := Secondary, updatedAt := t\<rparr>)
      else r' = r)"

definition relink_targets :: "contact list \<Rightarrow> contact list \<Rightarrow> nat \<Rightarrow> nat set" where
  "relink_targets ps ss m =
     cid ` {c \<in> set ps. cid c \<noteq> m} \<union> cid ` {c \<in> set ss. linkedId c \<noteq> Some m}"

text \<open>
  Example environments and tables. \<open>rowid_order\<close> returns ties by ascending id and reads
  the stored times as they are (a process in UTC); \<open>reverse_order\<close> returns ties by
  descending id; \<open>skipped_hour\<close> reads the stored time 1 as 3, as a local time zone does
  with a time in the hour that daylight saving skips. \<open>live_contact\<close> is a row that is not
  deleted; \<open>at_time t\<close> is the clock of a call whose writes all happen at the time \<open>t\<close>;
  \<open>after_calls\<close> replays a sequence of calls \<open>(t, email, phone)\<close>, each of them made at the
  time \<open>t\<close>.
\<close>

definition rowid_order :: runtime where
  "rowid_order = \<lparr>findOrder = cid, groupOrder = cid, parseDate = (\<lambda>t. t)\<rparr>"



definition live_contact ::
    "nat \<Rightarrow> string option \<Rightarrow> string option \<Rightarrow> nat option \<Rightarrow> precedence \<Rightarrow> nat \<Rightarrow> nat \<Rightarrow> contact" where
  "live_contact i e p l prec c u =
     \<lparr>cid = i, phoneNumber = p, email = e, linkedId = l, linkPrecedence = prec,
      createdAt = c, updatedAt = u, deletedAt = None\<rparr>"

definition collision_db :: database where
  "collision_db =
     \<lparr>rows = [live_contact 1 (Some ''a@x.com'') (Some ''1111111111'') None Primary 1 1,
              live_contact 2 (Some ''b@x.com'') (Some ''2222222222'') None Primary 2 2,
              live_contact 3 (Some ''a@x.com'') (Some ''3333333333'') (Some 1) Secondary 3 3,
              live_contact 4 (Some ''c@x.com'') (Some ''2222222222'') (Some 2) Secondary 4 4,
              live_contact 5 (Some ''d@x.com'') None (Some 2) Secondary 5 5],
      seq = 5\<rparr>"

definition at_time :: "nat \<Rightarrow> nat \<Rightarrow> nat" where
  "at_time t k = t"

definition after_calls ::
    "runtime \<Rightarrow> database \<Rightarrow> (nat \<times> string option \<times> string option) list \<Rightarrow> database" where
  "after_calls rt db calls =
     fold (\<lambda>(t, e, p) d. snd (identifyContact rt (at_time t) d e p)) calls db"




definition covered_db :: database where
  "covered_db =
     \<lparr>rows = [live_contact 1 (Some ''a@x.com'') (Some ''1111111111'') None Primary 1 1,
              live_contact 2 (Some ''b@x.com'') (Some ''2222222222'') None Primary 2 2,
              live_contact 3 (Some ''c@x.com'') (Some ''2222222222'') (Some 1) Secondary 3 3],
      seq = 3\<rparr>"

section \<open>Facts about the table operations\<close>

lemma precedence_text_order: "precedence_text Primary < precedence_text Secondary"
  by simp

lemma linkPrecedence_desc_text:
  "(linkPrecedence_desc a < linkPrecedence_desc b) = (precedence_text b < precedence_text a)"
  by (cases a; cases b) simp_all

lemma fold_max_ge_init: "(a::nat) \<le> fold max xs a"
proof (induction xs arbitrary: a)
  case Nil
  show ?case by simp
next
  case (Cons x xs)
  have "a \<le> max x a" by simp
  also have "\<dots> \<le> fold max xs (max x a)" by (rule Cons.IH)
  finally show ?case by simp
qed

lemma fold_max_ge_elem: "(x::nat) \<in> set xs \<Longrightarrow> x \<le> fold max xs a"
proof (induction xs arbitrary: a)
  case Nil
  then show ?case by simp
next
  case (Cons y ys)
  show ?case
  proof (cases "x = y")
    case True
    have "x \<le> max y a" using True by simp
    also have "\<dots> \<le> fold max ys (max y a)" by (rule fold_max_ge_init)
    finally show ?thesis by simp
  next
    case False
    with Cons.prems have "x \<in> set ys" by simp
    then show ?thesis using Cons.IH by simp
  qed
qed

lemma max_id_ge: "c \<in> set rs \<Longrightarrow> cid c \<le> max_id rs"
  unfolding max_id_def by (rule fold_max_ge_elem) simp

lemma find_append_fresh:
  "\<forall>c\<in>set rs. \<not> P c \<Longrightarrow> P x \<Longrightarrow> find P (rs @ [x]) = Some x"
  by (induction rs) auto

lemma new_id_fresh: "c \<in> set (rows db) \<Longrightarrow> cid c \<noteq> Suc (max (seq db) (max_id (rows db)))"
  using max_id_ge [of c "rows db"] by auto

text \<open>The SELECT after the INSERT finds the row just inserted: its id is new.\<close>

lemma createContact_eq:
  "createContact e p l prec now db =
     (let n = Suc (max (seq db) (max_id (rows db)));
          c = \<lparr>cid = n, phoneNumber = p, email = e, linkedId = l, linkPrecedence = prec,
               createdAt = now, updatedAt = now, deletedAt = None\<rparr>
      in (Some c, db\<lparr>rows := rows db @ [c], seq := n\<rparr>))"
  unfolding createContact_def selectById_def Let_def
  by (simp add: find_append_fresh new_id_fresh)

section \<open>Input validation\<close>

text \<open>
  C4. A phone number that is provided (a non-empty string; the guard \<open>phoneNumber &&\<close> lets
  \<open>null\<close> and the empty string through as "not provided") and does not consist of exactly
  ten digits makes \<open>identifyContact\<close> throw the phone-format error, whatever the email and
  whatever the table holds, and the table is left exactly as it was: nothing is created
  or updated before the rejection.
\<close>

theorem identify_invalid_phone_rejected:
  assumes "p \<noteq> []" and "\<not> phone_regex p"
  shows "identifyContact rt clk db e (Some p) = (Inl InvalidPhoneNumber, db)"
  using assms by (simp add: identifyContact_def)

theorem identify_invalid_phone_rejected_witness:
  "''abc'' \<noteq> [] \<and> \<not> phone_regex ''abc'' \<and>
   identifyContact rowid_order (at_time 7) \<lparr>rows = [], seq = 0\<rparr> (Some ''x@x.com'') (Some ''abc'')
     = (Inl InvalidPhoneNumber, \<lparr>rows = [], seq = 0\<rparr>)"
  using identify_invalid_phone_rejected
          [where p = "''abc''" and rt = rowid_order and clk = "at_time 7"
             and db = "\<lparr>rows = [], seq = 0\<rparr>" and e = "Some ''x@x.com''"]
  by (simp add: phone_regex_def)

section \<open>No match: a new primary\<close>



section \<open>The consolidated view has no duplicates\<close>

lemma distinct_new_Set: "distinct seen \<Longrightarrow> distinct (new_Set seen xs)"
  by (induction xs arbitrary: seen) auto

lemma set_new_Set: "set (new_Set seen xs) = set seen \<union> set xs"
  by (induction xs arbitrary: seen) auto

lemma distinct_spread_Set: "distinct (spread_Set xs)"
  by (simp add: spread_Set_def distinct_new_Set)

lemma set_spread_Set: "set (spread_Set xs) = set xs"
  by (simp add: spread_Set_def set_new_Set)

lemma set_filter_Boolean:
  "set (filter_Boolean vs) = {s. s \<noteq> [] \<and> Some s \<in> set vs}"
proof -
  have "\<And>v. truthy v \<longleftrightarrow> (\<exists>s. v = Some s \<and> s \<noteq> [])"
    by (case_tac v) auto
  then show ?thesis
    unfolding filter_Boolean_def by force
qed

lemma buildResponse_distinct:
  "distinct (emails (buildResponse rt pid db))" "distinct (phoneNumbers (buildResponse rt pid db))"
  by (simp_all add: buildResponse_def Let_def distinct_spread_Set)

lemma createNewPrimaryContact_distinct:
  "view_distinct (fst (createNewPrimaryContact e p now db))"
  by (simp add: createNewPrimaryContact_def createContact_eq Let_def view_distinct_def)

lemma mergePrimaryContacts_distinct:
  "view_distinct (fst (mergePrimaryContacts rt ps ss e p clk db))"
  by (simp add: mergePrimaryContacts_def Let_def buildResponse_distinct view_distinct_def
        split: list.split)

lemma executeConsolidation_distinct:
  "view_distinct (fst (executeConsolidation rt pl e p clk db))"
proof (cases pl)
  case (ReturnExisting c)
  then show ?thesis
    by (cases c) (simp_all add: buildResponse_distinct view_distinct_def)
next
  case (MergePrimaries ps ss)
  then show ?thesis by (simp add: mergePrimaryContacts_distinct)
next
  case (CreateSecondary pc ni)
  then show ?thesis
    by (simp add: createSecondaryContact_def Let_def buildResponse_distinct view_distinct_def)
next
  case (LinkToExistingPrimary i ni)
  then show ?thesis
    by (simp add: linkToExistingPrimary_def Let_def buildResponse_distinct view_distinct_def)
next
  case CreateNewPrimary
  then show ?thesis by (simp add: createNewPrimaryContact_distinct)
qed

lemma identifyContact_distinct: "view_distinct (fst (identifyContact rt clk db e p))"
  unfolding identifyContact_def Let_def
  by (simp add: createNewPrimaryContact_distinct executeConsolidation_distinct)
     (simp add: view_distinct_def)

text \<open>
  C9. Whenever \<open>identifyContact\<close> returns a view, its \<open>emails\<close> list and its \<open>phoneNumbers\<close>
  list hold no value twice. The lists of a view built from a group are, as sets, exactly
  the non-empty strings stored in the group's rows: two strings are one entry only when
  they are the same string, and no string is changed on the way (no case folding, no
  trimming).
\<close>

theorem view_has_no_duplicates:
  "(case fst (identifyContact rt clk db e p) of
      Inl err \<Rightarrow> True
    | Inr v \<Rightarrow> distinct (emails v) \<and> distinct (phoneNumbers v))
   \<and> set (emails (buildResponse rt pid db))
       = {s. s \<noteq> [] \<and> Some s \<in> email ` set (getLinkedContacts rt pid db)}
   \<and> set (phoneNumbers (buildResponse rt pid db))
       = {s. s \<noteq> [] \<and> Some s \<in> phoneNumber ` set (getLinkedContacts rt pid db)}"
  using identifyContact_distinct [of rt clk db e p]
  by (simp add: view_distinct_def buildResponse_def Let_def set_spread_Set set_filter_Boolean)

section \<open>What a merge writes\<close>

lemma relinked_cid: "relinked S m r r' \<Longrightarrow> cid r' = cid r"
  by (auto simp: relinked_def split: if_splits)

lemma relinked_fields:
  "relinked S m r r' \<Longrightarrow>
     email r' = email r \<and> phoneNumber r' = phoneNumber r \<and> deletedAt r' = deletedAt r
     \<and> createdAt r' = createdAt r"
  by (auto simp: relinked_def split: if_splits)

lemma relinked_refl: "relinked {} m r r"
  by (simp add: relinked_def)

lemma relinked_step:
  assumes "relinked S m r r1"
  shows "relinked (insert x S) m r
     (if cid r1 = x then r1\<lparr>linkedId := Some m, linkPrecedence := Secondary, updatedAt := t\<rparr>
      else r1)"
proof (cases "cid r \<in> S")
  case True
  with assms obtain t0 where r1: "r1 = r\<lparr>linkedId := Some m, linkPrecedence := Secondary, updatedAt := t0\<rparr>"
    unfolding relinked_def by auto
  show ?thesis
  proof (cases "cid r = x")
    case True
    have "r1\<lparr>linkedId := Some m, linkPrecedence := Secondary, updatedAt := t\<rparr>
            = r\<lparr>linkedId := Some m, linkPrecedence := Secondary, updatedAt := t\<rparr>"
      unfolding r1 by simp
    moreover have "cid r1 = x" using True unfolding r1 by simp
    ultimately show ?thesis using True unfolding relinked_def by auto
  next
    case False
    then have "cid r1 \<noteq> x" unfolding r1 by simp
    then show ?thesis using \<open>cid r \<in> S\<close> r1 unfolding relinked_def by auto
  qed
next
  case False
  with assms have r1: "r1 = r" unfolding relinked_def by simp
  show ?thesis
  proof (cases "cid r = x")
    case True
    then show ?thesis unfolding relinked_def r1 by auto
  next
    case False
    then show ?thesis using \<open>cid r \<notin> S\<close> unfolding relinked_def r1 by simp
  qed
qed

lemma relink_rows:
  "rows (snd (relink clk m c s)) =
     map (\<lambda>r. if cid r = cid c
               then r\<lparr>linkedId := Some m, linkPrecedence := Secondary, updatedAt := clk (fst s)\<rparr>
               else r) (rows (snd s))"
  by (simp add: relink_def updateContactLink_def Let_def)

lemma relink_seq: "seq (snd (relink clk m c s)) = seq (snd s)"
  by (simp add: relink_def updateContactLink_def Let_def)

lemma relink_relinked:
  assumes "list_all2 (relinked S m) rs (rows (snd s))"
  shows "list_all2 (relinked (insert (cid c) S) m) rs (rows (snd (relink clk m c s)))"
  unfolding relink_rows list_all2_map2
  using assms by (rule list_all2_mono) (rule relinked_step)

lemma relink_loop:
  assumes "list_all2 (relinked S m) rs (rows (snd s))"
  shows "list_all2 (relinked (S \<union> cid ` {c \<in> set cs. P c}) m) rs
           (rows (snd (fold (\<lambda>c s. if P c then relink clk m c s else s) cs s)))"
  using assms
proof (induction cs arbitrary: S s)
  case Nil
  then show ?case by simp
next
  case (Cons c cs)
  show ?case
  proof (cases "P c")
    case True
    have "list_all2 (relinked (insert (cid c) S) m) rs (rows (snd (relink clk m c s)))"
      by (rule relink_relinked [OF Cons.prems])
    from Cons.IH [OF this]
    have "list_all2 (relinked (insert (cid c) S \<union> cid ` {x \<in> set cs. P x}) m) rs
            (rows (snd (fold (\<lambda>c s. if P c then relink clk m c s else s) cs (relink clk m c s))))" .
    moreover have "insert (cid c) S \<union> cid ` {x \<in> set cs. P x} = S \<union> cid ` {x \<in> set (c # cs). P x}"
      using True by auto
    ultimately show ?thesis using True by simp
  next
    case False
    from Cons.IH [OF Cons.prems]
    have "list_all2 (relinked (S \<union> cid ` {x \<in> set cs. P x}) m) rs
            (rows (snd (fold (\<lambda>c s. if P c then relink clk m c s else s) cs s)))" .
    moreover have "S \<union> cid ` {x \<in> set cs. P x} = S \<union> cid ` {x \<in> set (c # cs). P x}"
      using False by auto
    ultimately show ?thesis using False by simp
  qed
qed

lemma relink_loop_seq:
  "seq (snd (fold (\<lambda>c s. if P c then relink clk m c s else s) cs s)) = seq (snd s)"
  by (induction cs arbitrary: s) (simp_all add: relink_seq)

lemma createIfNeeded_rows:
  "\<exists>extra. rows (createIfNeeded ni e p pid now db) = rows db @ extra
     \<and> (\<not> needsEmail ni \<and> \<not> needsPhone ni \<longrightarrow> extra = [] \<and> createIfNeeded ni e p pid now db = db)"
proof (cases "needsEmail ni \<or> needsPhone ni")
  case True
  then show ?thesis by (simp add: createIfNeeded_def createContact_eq Let_def)
next
  case False
  then show ?thesis by (simp add: createIfNeeded_def)
qed

text \<open>What a merge does to the table.\<close>

lemma merge_effect:
  assumes "ps \<noteq> []"
  shows "\<exists>rows2 extra db2.
      mergePrimaryContacts rt ps ss e p clk db
        = (Inr (buildResponse rt (Some (cid (oldest_of rt (hd ps) (tl ps))))
                  (snd (mergePrimaryContacts rt ps ss e p clk db))),
           snd (mergePrimaryContacts rt ps ss e p clk db))
      \<and> rows (snd (mergePrimaryContacts rt ps ss e p clk db)) = rows2 @ extra
      \<and> list_all2 (relinked (relink_targets ps ss (cid (oldest_of rt (hd ps) (tl ps))))
                      (cid (oldest_of rt (hd ps) (tl ps)))) (rows db) rows2
      \<and> rows db2 = rows2 \<and> seq db2 = seq db
      \<and> (\<not> needsEmail (determineNewInfo (ps @ ss) e p)
           \<and> \<not> needsPhone (determineNewInfo (ps @ ss) e p)
          \<longrightarrow> snd (mergePrimaryContacts rt ps ss e p clk db) = db2)"
proof -
  obtain p0 rest where ps: "ps = p0 # rest" using assms by (cases ps) auto
  define m where "m = cid (oldest_of rt p0 rest)"
  define s1 where "s1 = fold (\<lambda>c s. if cid c \<noteq> m then relink clk m c s else s) ps (0, db)"
  define s2 where "s2 = fold (\<lambda>c s. if linkedId c \<noteq> Some m then relink clk m c s else s) ss s1"
  define db' where "db' = createIfNeeded (determineNewInfo (ps @ ss) e p) e p (Some m) (clk (fst s2)) (snd s2)"
  have res: "mergePrimaryContacts rt ps ss e p clk db = (Inr (buildResponse rt (Some m) db'), db')"
    unfolding mergePrimaryContacts_def ps Let_def m_def s1_def s2_def db'_def
    by simp
  have "list_all2 (relinked {} m) (rows db) (rows (snd (0::nat, db)))"
    by (simp add: list_all2_same relinked_refl)
  from relink_loop [OF this, of ps "\<lambda>c. cid c \<noteq> m" clk]
  have l1: "list_all2 (relinked ({} \<union> cid ` {c \<in> set ps. cid c \<noteq> m}) m) (rows db) (rows (snd s1))"
    unfolding s1_def .
  from relink_loop [OF l1, of ss "\<lambda>c. linkedId c \<noteq> Some m" clk]
  have l2: "list_all2 (relinked (relink_targets ps ss m) m) (rows db) (rows (snd s2))"
    unfolding s2_def relink_targets_def by simp
  have sq: "seq (snd s2) = seq db"
    unfolding s2_def s1_def by (simp add: relink_loop_seq)
  obtain extra where ex: "rows db' = rows (snd s2) @ extra"
    and none: "\<not> needsEmail (determineNewInfo (ps @ ss) e p)
               \<and> \<not> needsPhone (determineNewInfo (ps @ ss) e p) \<longrightarrow> db' = snd s2"
    using createIfNeeded_rows [of "determineNewInfo (ps @ ss) e p" e p "Some m" "clk (fst s2)" "snd s2"]
    unfolding db'_def by blast
  have hm: "cid (oldest_of rt (hd ps) (tl ps)) = m" by (simp add: ps m_def)
  have "mergePrimaryContacts rt ps ss e p clk db = (Inr (buildResponse rt (Some m) (snd (mergePrimaryContacts rt ps ss e p clk db))), snd (mergePrimaryContacts rt ps ss e p clk db))
      \<and> rows (snd (mergePrimaryContacts rt ps ss e p clk db)) = rows (snd s2) @ extra
      \<and> list_all2 (relinked (relink_targets ps ss m) m) (rows db) (rows (snd s2))
      \<and> rows (snd s2) = rows (snd s2) \<and> seq (snd s2) = seq db
      \<and> (\<not> needsEmail (determineNewInfo (ps @ ss) e p)
           \<and> \<not> needsPhone (determineNewInfo (ps @ ss) e p)
          \<longrightarrow> snd (mergePrimaryContacts rt ps ss e p clk db) = snd s2)"
    unfolding res using ex l2 sq none by simp
  then show ?thesis unfolding hm by blast
qed

lemma find_relinked:
  assumes "list_all2 (relinked S m) xs ys" and "distinct (map cid xs)" and "r \<in> set xs"
  shows "\<exists>r'. find (\<lambda>c. cid c = cid r) ys = Some r' \<and> relinked S m r r'"
  using assms
proof (induction rule: list_all2_induct)
  case Nil
  then show ?case by simp
next
  case (Cons x xs y ys)
  have cy: "cid y = cid x" using Cons.hyps(1) by (rule relinked_cid)
  show ?case
  proof (cases "r = x")
    case True
    then show ?thesis using cy Cons.hyps(1) by simp
  next
    case False
    with Cons.prems have rin: "r \<in> set xs" by simp
    with Cons.prems(1) have "cid x \<noteq> cid r" by auto
    moreover have "\<exists>r'. find (\<lambda>c. cid c = cid r) ys = Some r' \<and> relinked S m r r'"
      using Cons.IH Cons.prems(1) rin by simp
    ultimately show ?thesis using cy by simp
  qed
qed

lemma find_append_Some: "find P xs = Some x \<Longrightarrow> find P (xs @ ys) = Some x"
  by (induction xs) (auto split: if_splits)

lemma oldest_fold:
  "fold (\<lambda>current oldest.
           if parseDate rt (createdAt current) < parseDate rt (createdAt oldest)
           then current else oldest) xs (a::contact)
      \<in> insert a (set xs)
   \<and> parseDate rt (createdAt (fold (\<lambda>current oldest.
           if parseDate rt (createdAt current) < parseDate rt (createdAt oldest)
           then current else oldest) xs a))
        \<le> parseDate rt (createdAt a)
   \<and> (\<forall>q\<in>set xs. parseDate rt (createdAt (fold (\<lambda>current oldest.
           if parseDate rt (createdAt current) < parseDate rt (createdAt oldest)
           then current else oldest) xs a))
        \<le> parseDate rt (createdAt q))"
proof (induction xs arbitrary: a)
  case Nil
  show ?case by simp
next
  case (Cons x xs)
  let ?d = "\<lambda>c::contact. parseDate rt (createdAt c)"
  let ?f = "\<lambda>current oldest. if ?d current < ?d oldest then current else (oldest::contact)"
  let ?a' = "?f x a"
  note IH = Cons.IH [of ?a']
  have a'1: "?a' \<in> {x, a}" by simp
  have a'2: "?d ?a' \<le> ?d a" "?d ?a' \<le> ?d x" by simp_all
  have e: "fold ?f (x # xs) a = fold ?f xs ?a'" by simp
  from IH have i1: "fold ?f xs ?a' \<in> insert ?a' (set xs)"
    and i2: "?d (fold ?f xs ?a') \<le> ?d ?a'"
    and i3: "\<forall>q\<in>set xs. ?d (fold ?f xs ?a') \<le> ?d q" by blast+
  have "fold ?f xs ?a' \<in> insert a (set (x # xs))" using i1 a'1 by auto
  moreover have "?d (fold ?f xs ?a') \<le> ?d a" using i2 a'2(1) by (rule le_trans)
  moreover have "?d (fold ?f xs ?a') \<le> ?d x" using i2 a'2(2) by (rule le_trans)
  ultimately show ?case unfolding e using i3 by simp
qed

lemma oldest_of_in: "oldest_of rt p0 rest \<in> set (p0 # rest)"
  using oldest_fold [of rt rest p0] by (simp add: oldest_of_def)



lemma set_find:
  "set (findContactsByEmailOrPhone rt e p db) =
     {c \<in> set (rows db). ((truthy e \<and> email c = e) \<or> (truthy p \<and> phoneNumber c = p))
                          \<and> deletedAt c = None}"
  unfolding findContactsByEmailOrPhone_def by auto

lemma analyze_MergeD:
  assumes "analyzeContacts xs e p = MergePrimaries ps ss"
  shows "ps = filter (\<lambda>c. linkPrecedence c = Primary) xs"
    and "ss = filter (\<lambda>c. linkPrecedence c = Secondary) xs"
    and "\<exists>a b rest. ps = a # b # rest"
  using assms
  by (auto simp: analyzeContacts_def Let_def split: option.splits list.splits if_splits)
     (metis+)

lemma analyze_needs:
  "analyzeContacts xs e p = CreateSecondary pc ni \<Longrightarrow> ni = determineNewInfo xs e p"
  "analyzeContacts xs e p = LinkToExistingPrimary i ni \<Longrightarrow> ni = determineNewInfo xs e p"
  by (auto simp: analyzeContacts_def Let_def split: option.splits list.splits if_splits)

lemma precedence_filters_empty:
  "filter (\<lambda>c. linkPrecedence c = Primary) xs = [] \<Longrightarrow>
   filter (\<lambda>c. linkPrecedence c = Secondary) xs = [] \<Longrightarrow> xs = []"
proof (cases xs)
  case Nil
  then show ?thesis by simp
next
  case (Cons x ys)
  assume "filter (\<lambda>c. linkPrecedence c = Primary) xs = []"
    and "filter (\<lambda>c. linkPrecedence c = Secondary) xs = []"
  then have "linkPrecedence x \<noteq> Primary" "linkPrecedence x \<noteq> Secondary"
    using Cons by (auto split: if_splits)
  then show ?thesis by (cases "linkPrecedence x") simp_all
qed

lemma analyze_CreateNewPrimaryD:
  "analyzeContacts xs e p = CreateNewPrimary \<Longrightarrow> xs = []"
  by (rule precedence_filters_empty)
     (auto simp: analyzeContacts_def Let_def split: option.splits list.splits if_splits)



lemma identify_merge:
  assumes "truthy p \<Longrightarrow> phone_regex (the p)"
    and "analyzeContacts (findContactsByEmailOrPhone rt e p db) e p = MergePrimaries ps ss"
  shows "identifyContact rt clk db e p = mergePrimaryContacts rt ps ss e p clk db"
proof -
  have "findContactsByEmailOrPhone rt e p db \<noteq> []"
    using analyze_MergeD(1,3) [OF assms(2)] by auto
  moreover have "(truthy p \<and> \<not> phone_regex (the p)) = False" using assms(1) by blast
  ultimately show ?thesis
    using assms(2) by (auto simp: identifyContact_def Let_def)
qed

lemma merge_select:
  assumes dist: "distinct (map cid (rows db))"
    and ne: "ps \<noteq> []"
    and sub: "set ps \<subseteq> set (rows db)" "set ss \<subseteq> set (rows db)"
    and r: "r \<in> set (rows db)"
  shows "\<exists>t. selectById (cid r) (snd (mergePrimaryContacts rt ps ss e p clk db)) =
           Some (if (r \<in> set ps \<and> cid r \<noteq> cid (oldest_of rt (hd ps) (tl ps)))
                    \<or> (r \<in> set ss \<and> linkedId r \<noteq> Some (cid (oldest_of rt (hd ps) (tl ps))))
                 then r\<lparr>linkedId := Some (cid (oldest_of rt (hd ps) (tl ps))),
                        linkPrecedence := Secondary, updatedAt := t\<rparr>
                 else r)"
proof -
  define m where "m = cid (oldest_of rt (hd ps) (tl ps))"
  define db' where "db' = snd (mergePrimaryContacts rt ps ss e p clk db)"
  obtain rows2 extra where rw: "rows db' = rows2 @ extra"
    and rel: "list_all2 (relinked (relink_targets ps ss m) m) (rows db) rows2"
    using merge_effect [OF ne, of rt ss e p clk db] unfolding m_def db'_def by blast
  obtain r' where f: "find (\<lambda>c. cid c = cid r) rows2 = Some r'"
    and rr: "relinked (relink_targets ps ss m) m r r'"
    using find_relinked [OF rel dist r] by blast
  have sel: "selectById (cid r) db' = Some r'"
    unfolding selectById_def rw using f by (rule find_append_Some)
  have inj: "inj_on cid (set (rows db))" using dist by (simp add: distinct_map)
  have same: "\<And>c. c \<in> set (rows db) \<Longrightarrow> cid c = cid r \<Longrightarrow> c = r"
    using inj r by (auto dest: inj_onD)
  define w where "w \<longleftrightarrow> (r \<in> set ps \<and> cid r \<noteq> m) \<or> (r \<in> set ss \<and> linkedId r \<noteq> Some m)"
  have tg: "cid r \<in> relink_targets ps ss m \<longleftrightarrow> w"
  proof
    assume "cid r \<in> relink_targets ps ss m"
    then consider c where "c \<in> set ps" "cid c \<noteq> m" "cid c = cid r"
      | c where "c \<in> set ss" "linkedId c \<noteq> Some m" "cid c = cid r"
      unfolding relink_targets_def by auto
    then show w
    proof cases
      case 1
      then have "c = r" using same sub(1) by blast
      with 1 show ?thesis unfolding w_def by simp
    next
      case 2
      then have "c = r" using same sub(2) by blast
      with 2 show ?thesis unfolding w_def by simp
    qed
  next
    assume w
    then show "cid r \<in> relink_targets ps ss m"
      unfolding relink_targets_def w_def by auto
  qed
  show ?thesis
  proof (cases w)
    case True
    then obtain t where "r' = r\<lparr>linkedId := Some m, linkPrecedence := Secondary, updatedAt := t\<rparr>"
      using rr tg unfolding relinked_def by auto
    then have "selectById (cid r) db' =
           Some (if w then r\<lparr>linkedId := Some m, linkPrecedence := Secondary, updatedAt := t\<rparr>
                 else r)"
      using sel True by simp
    then show ?thesis unfolding w_def m_def db'_def by (rule exI)
  next
    case False
    then have "r' = r" using rr tg unfolding relinked_def by simp
    then have "selectById (cid r) db' =
           Some (if w then r\<lparr>linkedId := Some m, linkPrecedence := Secondary, updatedAt := 0\<rparr>
                 else r)"
      using sel False by simp
    then show ?thesis unfolding w_def m_def db'_def by (rule exI)
  qed
qed

lemma merge_view:
  "ps \<noteq> [] \<Longrightarrow>
   fst (mergePrimaryContacts rt ps ss e p clk db) =
     Inr (buildResponse rt (Some (cid (oldest_of rt (hd ps) (tl ps))))
            (snd (mergePrimaryContacts rt ps ss e p clk db)))"
  using merge_effect [of ps rt ss e p clk db] by (metis fst_conv)

text \<open>
  C10. Let a call of \<open>identifyContact\<close> be a merge of the colliding primaries \<open>ps\<close> with the
  matched secondaries \<open>ss\<close>, on a table whose ids are unique. Then there is a retained
  primary \<open>main\<close> among \<open>ps\<close>, whose view is returned, and every row \<open>r\<close> the table held
  before the call is afterwards either exactly \<open>r\<close>, timestamps included, or \<open>r\<close> with
  \<open>linkedId\<close> set to the id of \<open>main\<close>, \<open>linkPrecedence\<close> set to secondary and a new
  \<open>updatedAt\<close>; it is the latter exactly when \<open>r\<close> is another colliding primary or a matched
  secondary whose \<open>linkedId\<close> is not the id of \<open>main\<close>. In particular the row of \<open>main\<close> and
  the matched secondaries that already point at \<open>main\<close> are not written.
\<close>

theorem merge_writes_only_demoted_and_repointed:
  assumes "distinct (map cid (rows db))"
    and "truthy p \<Longrightarrow> phone_regex (the p)"
    and "analyzeContacts (findContactsByEmailOrPhone rt e p db) e p = MergePrimaries ps ss"
  shows "\<exists>main\<in>set ps.
           fst (identifyContact rt clk db e p)
             = Inr (buildResponse rt (Some (cid main)) (snd (identifyContact rt clk db e p)))
         \<and> selectById (cid main) (snd (identifyContact rt clk db e p)) = Some main
         \<and> (\<forall>r\<in>set (rows db). \<exists>t.
               selectById (cid r) (snd (identifyContact rt clk db e p)) =
                 Some (if (r \<in> set ps \<and> cid r \<noteq> cid main)
                          \<or> (r \<in> set ss \<and> linkedId r \<noteq> Some (cid main))
                       then r\<lparr>linkedId := Some (cid main), linkPrecedence := Secondary,
                              updatedAt := t\<rparr>
                       else r))"
proof -
  let ?xs = "findContactsByEmailOrPhone rt e p db"
  let ?main = "oldest_of rt (hd ps) (tl ps)"
  have ps: "ps = filter (\<lambda>c. linkPrecedence c = Primary) ?xs"
    and ss: "ss = filter (\<lambda>c. linkPrecedence c = Secondary) ?xs"
    and ne: "ps \<noteq> []"
    using analyze_MergeD [OF assms(3)] by auto
  have sub: "set ps \<subseteq> set (rows db)" "set ss \<subseteq> set (rows db)"
    unfolding ps ss by (auto simp: set_find)
  have id: "identifyContact rt clk db e p = mergePrimaryContacts rt ps ss e p clk db"
    using assms(2,3) by (rule identify_merge)
  have min: "?main \<in> set ps" using oldest_of_in [of rt "hd ps" "tl ps"] ne by simp
  have all: "\<forall>r\<in>set (rows db). \<exists>t.
               selectById (cid r) (snd (identifyContact rt clk db e p)) =
                 Some (if (r \<in> set ps \<and> cid r \<noteq> cid ?main)
                          \<or> (r \<in> set ss \<and> linkedId r \<noteq> Some (cid ?main))
                       then r\<lparr>linkedId := Some (cid ?main), linkPrecedence := Secondary,
                              updatedAt := t\<rparr>
                       else r)"
    unfolding id using merge_select [OF assms(1) ne sub] by blast
  have "?main \<notin> set ss" using min unfolding ps ss by auto
  moreover have "?main \<in> set (rows db)" using min sub(1) by blast
  ultimately have keep: "selectById (cid ?main) (snd (identifyContact rt clk db e p)) = Some ?main"
    using all by fastforce
  have view: "fst (identifyContact rt clk db e p)
             = Inr (buildResponse rt (Some (cid ?main)) (snd (identifyContact rt clk db e p)))"
    unfolding id using ne by (rule merge_view)
  from min view keep all show ?thesis by blast
qed

theorem merge_writes_only_demoted_and_repointed_witness:
  "distinct (map cid (rows collision_db))
   \<and> phone_regex (the (Some ''2222222222''))
   \<and> analyzeContacts (findContactsByEmailOrPhone rowid_order (Some ''a@x.com'') (Some ''2222222222'') collision_db) (Some ''a@x.com'') (Some ''2222222222'')
       = MergePrimaries
       [live_contact 1 (Some ''a@x.com'') (Some ''1111111111'') None Primary 1 1,
        live_contact 2 (Some ''b@x.com'') (Some ''2222222222'') None Primary 2 2]
       [live_contact 3 (Some ''a@x.com'') (Some ''3333333333'') (Some 1) Secondary 3 3,
        live_contact 4 (Some ''c@x.com'') (Some ''2222222222'') (Some 2) Secondary 4 4]
   \<and> (\<exists>main\<in>set [live_contact 1 (Some ''a@x.com'') (Some ''1111111111'') None Primary 1 1,
        live_contact 2 (Some ''b@x.com'') (Some ''2222222222'') None Primary 2 2].
           fst (identifyContact rowid_order (\<lambda>k. 10 + k) collision_db (Some ''a@x.com'') (Some ''2222222222''))
             = Inr (buildResponse rowid_order (Some (cid main)) (snd (identifyContact rowid_order (\<lambda>k. 10 + k) collision_db (Some ''a@x.com'') (Some ''2222222222''))))
         \<and> selectById (cid main) (snd (identifyContact rowid_order (\<lambda>k. 10 + k) collision_db (Some ''a@x.com'') (Some ''2222222222''))) = Some main
         \<and> (\<forall>r\<in>set (rows collision_db). \<exists>t.
               selectById (cid r) (snd (identifyContact rowid_order (\<lambda>k. 10 + k) collision_db (Some ''a@x.com'') (Some ''2222222222''))) =
                 Some (if (r \<in> set [live_contact 1 (Some ''a@x.com'') (Some ''1111111111'') None Primary 1 1,
        live_contact 2 (Some ''b@x.com'') (Some ''2222222222'') None Primary 2 2] \<and> cid r \<noteq> cid main)
                          \<or> (r \<in> set [live_contact 3 (Some ''a@x.com'') (Some ''3333333333'') (Some 1) Secondary 3 3,
        live_contact 4 (Some ''c@x.com'') (Some ''2222222222'') (Some 2) Secondary 4 4] \<and> linkedId r \<noteq> Some (cid main))
                       then r\<lparr>linkedId := Some (cid main), linkPrecedence := Secondary,
                              updatedAt := t\<rparr>
                       else r)))
   \<and> snd (identifyContact rowid_order (\<lambda>k. 10 + k) collision_db (Some ''a@x.com'') (Some ''2222222222''))
       = \<lparr>rows = [live_contact 1 (Some ''a@x.com'') (Some ''1111111111'') None Primary 1 1,
              live_contact 2 (Some ''b@x.com'') (Some ''2222222222'') (Some 1) Secondary 2 10,
              live_contact 3 (Some ''a@x.com'') (Some ''3333333333'') (Some 1) Secondary 3 3,
              live_contact 4 (Some ''c@x.com'') (Some ''2222222222'') (Some 1) Secondary 4 11,
              live_contact 5 (Some ''d@x.com'') None (Some 2) Secondary 5 5],
      seq = 5\<rparr>"
proof -
  have h1: "distinct (map cid (rows collision_db))"
    by code_simp
  have h2: "phone_regex (the (Some ''2222222222''))"
    by code_simp
  have h3: "analyzeContacts (findContactsByEmailOrPhone rowid_order (Some ''a@x.com'') (Some ''2222222222'') collision_db) (Some ''a@x.com'') (Some ''2222222222'')
       = MergePrimaries
       [live_contact 1 (Some ''a@x.com'') (Some ''1111111111'') None Primary 1 1,
        live_contact 2 (Some ''b@x.com'') (Some ''2222222222'') None Primary 2 2]
       [live_contact 3 (Some ''a@x.com'') (Some ''3333333333'') (Some 1) Secondary 3 3,
        live_contact 4 (Some ''c@x.com'') (Some ''2222222222'') (Some 2) Secondary 4 4]"
    by code_simp
  have c: "snd (identifyContact rowid_order (\<lambda>k. 10 + k) collision_db (Some ''a@x.com'') (Some ''2222222222''))
       = \<lparr>rows = [live_contact 1 (Some ''a@x.com'') (Some ''1111111111'') None Primary 1 1,
              live_contact 2 (Some ''b@x.com'') (Some ''2222222222'') (Some 1) Secondary 2 10,
              live_contact 3 (Some ''a@x.com'') (Some ''3333333333'') (Some 1) Secondary 3 3,
              live_contact 4 (Some ''c@x.com'') (Some ''2222222222'') (Some 1) Secondary 4 11,
              live_contact 5 (Some ''d@x.com'') None (Some 2) Secondary 5 5],
      seq = 5\<rparr>"
    by code_simp
  note t = merge_writes_only_demoted_and_repointed [OF h1 h2 h3, where clk = "\<lambda>k. 10 + k"]
  show ?thesis
    by (rule conjI [OF h1 conjI [OF h2 conjI [OF h3 conjI [OF t c]]]])
qed

section \<open>Which primary a merge retains\<close>




section \<open>Identifying twice\<close>

lemma set_getLinkedContacts:
  "set (getLinkedContacts rt (Some g) db) =
     {c \<in> set (rows db). (cid c = g \<or> linkedId c = Some g) \<and> deletedAt c = None}"
  unfolding getLinkedContacts_def by auto

lemma determineNewInfo_set:
  "set xs = set ys \<Longrightarrow> determineNewInfo xs e p = determineNewInfo ys e p"
  by (simp add: determineNewInfo_def set_filter_Boolean)

lemma precedence_filters_set:
  "set (filter (\<lambda>c. linkPrecedence c = Primary) xs @ filter (\<lambda>c. linkPrecedence c = Secondary) xs)
     = set xs"
proof -
  have "\<And>c. linkPrecedence c = Primary \<or> linkPrecedence c = Secondary"
    by (case_tac "linkPrecedence c") simp_all
  then show ?thesis by auto
qed

lemma covered_no_needs:
  assumes ce: "truthy e \<Longrightarrow> \<exists>c\<in>set (rows db). deletedAt c = None \<and> email c = e"
    and cp: "truthy p \<Longrightarrow> \<exists>c\<in>set (rows db). deletedAt c = None \<and> phoneNumber c = p"
    and some: "truthy e \<or> truthy p"
  shows "findContactsByEmailOrPhone rt e p db \<noteq> []"
    and "\<not> needsEmail (determineNewInfo (findContactsByEmailOrPhone rt e p db) e p)"
    and "\<not> needsPhone (determineNewInfo (findContactsByEmailOrPhone rt e p db) e p)"
proof -
  let ?xs = "findContactsByEmailOrPhone rt e p db"
  have e_in: "truthy e \<Longrightarrow> e \<in> email ` set ?xs"
  proof -
    assume t: "truthy e"
    then obtain c where "c \<in> set (rows db)" "deletedAt c = None" "email c = e"
      using ce by blast
    then have "c \<in> set ?xs" using t by (simp add: set_find)
    then show "e \<in> email ` set ?xs" using \<open>email c = e\<close> by force
  qed
  have p_in: "truthy p \<Longrightarrow> p \<in> phoneNumber ` set ?xs"
  proof -
    assume t: "truthy p"
    then obtain c where "c \<in> set (rows db)" "deletedAt c = None" "phoneNumber c = p"
      using cp by blast
    then have "c \<in> set ?xs" using t by (simp add: set_find)
    then show "p \<in> phoneNumber ` set ?xs" using \<open>phoneNumber c = p\<close> by force
  qed
  show "?xs \<noteq> []" using some e_in p_in by auto
  show "\<not> needsEmail (determineNewInfo ?xs e p)"
  proof (cases e)
    case None
    then show ?thesis by (simp add: determineNewInfo_def)
  next
    case (Some s)
    then show ?thesis using e_in by (auto simp: determineNewInfo_def set_filter_Boolean)
  qed
  show "\<not> needsPhone (determineNewInfo ?xs e p)"
  proof (cases p)
    case None
    then show ?thesis by (simp add: determineNewInfo_def)
  next
    case (Some s)
    then show ?thesis using p_in by (auto simp: determineNewInfo_def set_filter_Boolean)
  qed
qed

lemma createIfNeeded_none:
  "\<not> needsEmail ni \<Longrightarrow> \<not> needsPhone ni \<Longrightarrow> createIfNeeded ni e p pid now db = db"
  by (simp add: createIfNeeded_def)

lemma nonmerge_unchanged:
  assumes "xs \<noteq> []"
    and "\<not> needsEmail (determineNewInfo xs e p)" and "\<not> needsPhone (determineNewInfo xs e p)"
    and "\<forall>ps ss. analyzeContacts xs e p \<noteq> MergePrimaries ps ss"
  shows "snd (executeConsolidation rt (analyzeContacts xs e p) e p clk db) = db"
proof (cases "analyzeContacts xs e p")
  case (ReturnExisting c)
  then show ?thesis by (cases c) simp_all
next
  case (MergePrimaries ps ss)
  then show ?thesis using assms(4) by simp
next
  case (CreateSecondary pc ni)
  then have "ni = determineNewInfo xs e p" by (rule analyze_needs)
  then show ?thesis
    using CreateSecondary assms(2,3)
    by (simp add: createSecondaryContact_def Let_def createIfNeeded_none)
next
  case (LinkToExistingPrimary i ni)
  then have "ni = determineNewInfo xs e p" by (rule analyze_needs)
  then show ?thesis
    using LinkToExistingPrimary assms(2,3)
    by (simp add: linkToExistingPrimary_def Let_def createIfNeeded_none)
next
  case CreateNewPrimary
  then have "xs = []" by (rule analyze_CreateNewPrimaryD)
  then show ?thesis using assms(1) by simp
qed

lemma identify_nonmerge_unchanged:
  assumes "truthy e \<Longrightarrow> \<exists>c\<in>set (rows db). deletedAt c = None \<and> email c = e"
    and "truthy p \<Longrightarrow> \<exists>c\<in>set (rows db). deletedAt c = None \<and> phoneNumber c = p"
    and "truthy e \<or> truthy p"
    and "\<forall>ps ss. analyzeContacts (findContactsByEmailOrPhone rt e p db) e p \<noteq> MergePrimaries ps ss"
  shows "snd (identifyContact rt clk db e p) = db"
proof (cases "truthy p \<and> \<not> phone_regex (the p)")
  case True
  then show ?thesis by (simp add: identifyContact_def)
next
  case False
  note cov = covered_no_needs [OF assms(1,2,3)]
  have "snd (executeConsolidation rt (analyzeContacts (findContactsByEmailOrPhone rt e p db) e p) e p clk db) = db"
    using cov assms(4) by (rule nonmerge_unchanged)
  then show ?thesis
    using cov(1) False by (auto simp: identifyContact_def Let_def)
qed

lemma identify_merge_relinked:
  assumes "truthy p \<Longrightarrow> phone_regex (the p)"
    and "truthy e \<Longrightarrow> \<exists>c\<in>set (rows db). deletedAt c = None \<and> email c = e"
    and "truthy p \<Longrightarrow> \<exists>c\<in>set (rows db). deletedAt c = None \<and> phoneNumber c = p"
    and "truthy e \<or> truthy p"
    and an: "analyzeContacts (findContactsByEmailOrPhone rt e p db) e p = MergePrimaries ps ss"
  shows "list_all2 (relinked (relink_targets ps ss (cid (oldest_of rt (hd ps) (tl ps))))
                      (cid (oldest_of rt (hd ps) (tl ps))))
           (rows db) (rows (snd (identifyContact rt clk db e p)))"
proof -
  let ?xs = "findContactsByEmailOrPhone rt e p db"
  note cov = covered_no_needs [OF assms(2,3,4)]
  have ps: "ps = filter (\<lambda>c. linkPrecedence c = Primary) ?xs"
    and ss: "ss = filter (\<lambda>c. linkPrecedence c = Secondary) ?xs"
    and ne: "ps \<noteq> []"
    using analyze_MergeD [OF an] by auto
  have "set (ps @ ss) = set ?xs" unfolding ps ss by (rule precedence_filters_set)
  then have "determineNewInfo (ps @ ss) e p = determineNewInfo ?xs e p"
    by (rule determineNewInfo_set)
  then have nn: "\<not> needsEmail (determineNewInfo (ps @ ss) e p)
                 \<and> \<not> needsPhone (determineNewInfo (ps @ ss) e p)"
    using cov(2,3) by simp
  have id: "identifyContact rt clk db e p = mergePrimaryContacts rt ps ss e p clk db"
    using assms(1) an by (rule identify_merge)
  obtain rows2 extra db2 where
      "rows (snd (mergePrimaryContacts rt ps ss e p clk db)) = rows2 @ extra"
      and rel: "list_all2 (relinked (relink_targets ps ss (cid (oldest_of rt (hd ps) (tl ps))))
                      (cid (oldest_of rt (hd ps) (tl ps)))) (rows db) rows2"
      and "rows db2 = rows2"
      and "\<not> needsEmail (determineNewInfo (ps @ ss) e p)
           \<and> \<not> needsPhone (determineNewInfo (ps @ ss) e p)
          \<longrightarrow> snd (mergePrimaryContacts rt ps ss e p clk db) = db2"
    using merge_effect [OF ne, of rt ss e p clk db] by blast
  then have "rows (snd (mergePrimaryContacts rt ps ss e p clk db)) = rows2" using nn by simp
  then show ?thesis unfolding id using rel by simp
qed

lemma list_all2_in_left: "list_all2 R xs ys \<Longrightarrow> x \<in> set xs \<Longrightarrow> \<exists>y\<in>set ys. R x y"
  by (induction rule: list_all2_induct) auto

lemma list_all2_in_right: "list_all2 R xs ys \<Longrightarrow> y \<in> set ys \<Longrightarrow> \<exists>x\<in>set xs. R x y"
  by (induction rule: list_all2_induct) auto

lemma relinked_map_cid: "list_all2 (relinked S m) xs ys \<Longrightarrow> map cid ys = map cid xs"
  by (induction rule: list_all2_induct) (auto dest: relinked_cid)

lemma distinct_all_equal_short:
  "distinct xs \<Longrightarrow> \<forall>x\<in>set xs. \<forall>y\<in>set xs. x = y \<Longrightarrow> length xs \<le> 1"
proof (cases xs)
  case Nil
  then show ?thesis by simp
next
  case (Cons a as)
  assume d: "distinct xs" and eq: "\<forall>x\<in>set xs. \<forall>y\<in>set xs. x = y"
  have "as = []"
  proof (cases as)
    case Nil
    then show ?thesis .
  next
    case (Cons b bs)
    then have "a \<in> set xs" and "b \<in> set xs" using \<open>xs = a # as\<close> by simp_all
    with eq have "a = b" by blast
    moreover have "a \<noteq> b" using d \<open>xs = a # as\<close> Cons by simp
    ultimately show ?thesis by contradiction
  qed
  then show ?thesis using Cons by simp
qed

lemma covered_relinked:
  assumes "list_all2 (relinked S m) (rows db) (rows db1)"
    and "\<exists>c\<in>set (rows db). deletedAt c = None \<and> f c = v"
    and "\<And>r r'. relinked S m r r' \<Longrightarrow> f r' = f r"
  shows "\<exists>c\<in>set (rows db1). deletedAt c = None \<and> f c = v"
proof -
  obtain c where c: "c \<in> set (rows db)" "deletedAt c = None" "f c = v" using assms(2) by blast
  obtain c' where c': "c' \<in> set (rows db1)" "relinked S m c c'"
    using list_all2_in_left [OF assms(1) c(1)] by blast
  have "deletedAt c' = None" using relinked_fields [OF c'(2)] c(2) by simp
  moreover have "f c' = v" using assms(3) [OF c'(2)] c(3) by simp
  ultimately show ?thesis using c'(1) by blast
qed

lemma after_merge_one_primary:
  assumes dist: "distinct (map cid (rows db))"
    and ps: "ps = filter (\<lambda>c. linkPrecedence c = Primary) (findContactsByEmailOrPhone rt e p db)"
    and rel: "list_all2 (relinked (relink_targets ps ss m) m) (rows db) (rows db1)"
  shows "length (filter (\<lambda>c. linkPrecedence c = Primary) (findContactsByEmailOrPhone rt' e p db1)) \<le> 1"
proof (rule distinct_all_equal_short)
  have d1: "distinct (map cid (rows db1))" using relinked_map_cid [OF rel] dist by simp
  then have "distinct (rows db1)" by (simp add: distinct_map)
  then show "distinct (filter (\<lambda>c. linkPrecedence c = Primary) (findContactsByEmailOrPhone rt' e p db1))"
    unfolding findContactsByEmailOrPhone_def by simp
  have inj: "inj_on cid (set (rows db1))" using d1 by (simp add: distinct_map)
  have m: "cid r' = m \<and> r' \<in> set (rows db1)"
    if "r' \<in> set (filter (\<lambda>c. linkPrecedence c = Primary) (findContactsByEmailOrPhone rt' e p db1))" for r'
  proof -
    from that have r'1: "r' \<in> set (rows db1)" and prim: "linkPrecedence r' = Primary"
      and mt: "((truthy e \<and> email r' = e) \<or> (truthy p \<and> phoneNumber r' = p)) \<and> deletedAt r' = None"
      by (auto simp: set_find)
    obtain r where r: "r \<in> set (rows db)" and rr: "relinked (relink_targets ps ss m) m r r'"
      using list_all2_in_right [OF rel r'1] by blast
    have notin: "cid r \<notin> relink_targets ps ss m"
    proof
      assume "cid r \<in> relink_targets ps ss m"
      then have "linkPrecedence r' = Secondary" using rr unfolding relinked_def by auto
      with prim show False by simp
    qed
    then have eq: "r' = r" using rr unfolding relinked_def by simp
    then have "r \<in> set ps" unfolding ps using r prim mt by (simp add: set_find)
    then have "cid r = m" using notin unfolding relink_targets_def by auto
    then show ?thesis using eq r'1 by simp
  qed
  show "\<forall>x\<in>set (filter (\<lambda>c. linkPrecedence c = Primary) (findContactsByEmailOrPhone rt' e p db1)).
        \<forall>y\<in>set (filter (\<lambda>c. linkPrecedence c = Primary) (findContactsByEmailOrPhone rt' e p db1)). x = y"
  proof (intro ballI)
    fix x y
    assume "x \<in> set (filter (\<lambda>c. linkPrecedence c = Primary) (findContactsByEmailOrPhone rt' e p db1))"
      and "y \<in> set (filter (\<lambda>c. linkPrecedence c = Primary) (findContactsByEmailOrPhone rt' e p db1))"
    then have "cid x = m \<and> x \<in> set (rows db1)" "cid y = m \<and> y \<in> set (rows db1)"
      using m by blast+
    then show "x = y" using inj by (auto dest: inj_onD)
  qed
qed

lemma identify_invalid_unchanged:
  "truthy p \<and> \<not> phone_regex (the p) \<Longrightarrow>
     identifyContact rt clk db e p = (Inl InvalidPhoneNumber, db)"
  by (simp add: identifyContact_def)

text \<open>How many matched rows satisfy a condition does not depend on the order of ties.\<close>

lemma matched_count_order:
  "length (filter P (findContactsByEmailOrPhone rt e p db))
     = length (filter P (findContactsByEmailOrPhone rt' e p db))"
  by (simp add: findContactsByEmailOrPhone_def filter_sort)

text \<open>
  A call whose supplied values all occur in live rows relinks rows at most: it creates
  none and leaves every email, phone and tombstone as it was.
\<close>

lemma identify_covered_relinked:
  assumes "truthy e \<Longrightarrow> \<exists>c\<in>set (rows db). deletedAt c = None \<and> email c = e"
    and "truthy p \<Longrightarrow> \<exists>c\<in>set (rows db). deletedAt c = None \<and> phoneNumber c = p"
    and "truthy e \<or> truthy p"
  shows "\<exists>S m. list_all2 (relinked S m) (rows db) (rows (snd (identifyContact rt clk db e p)))"
proof (cases "\<exists>ps ss. analyzeContacts (findContactsByEmailOrPhone rt e p db) e p = MergePrimaries ps ss")
  case False
  then have "snd (identifyContact rt clk db e p) = db"
    using assms by (intro identify_nonmerge_unchanged) blast+
  then have "list_all2 (relinked {} 0) (rows db) (rows (snd (identifyContact rt clk db e p)))"
    by (simp add: list_all2_same relinked_refl)
  then show ?thesis by blast
next
  case True
  then obtain ps ss
    where an: "analyzeContacts (findContactsByEmailOrPhone rt e p db) e p = MergePrimaries ps ss"
    by blast
  show ?thesis
  proof (cases "truthy p \<and> \<not> phone_regex (the p)")
    case True
    then have "snd (identifyContact rt clk db e p) = db"
      by (simp add: identify_invalid_unchanged)
    then have "list_all2 (relinked {} 0) (rows db) (rows (snd (identifyContact rt clk db e p)))"
      by (simp add: list_all2_same relinked_refl)
    then show ?thesis by blast
  next
    case False
    then have ok: "truthy p \<Longrightarrow> phone_regex (the p)" by blast
    from identify_merge_relinked [OF ok assms an, of clk] show ?thesis by blast
  qed
qed

lemma identify_covered_rows:
  assumes "truthy e \<Longrightarrow> \<exists>c\<in>set (rows db). deletedAt c = None \<and> email c = e"
    and "truthy p \<Longrightarrow> \<exists>c\<in>set (rows db). deletedAt c = None \<and> phoneNumber c = p"
    and "truthy e \<or> truthy p"
  shows "length (rows (snd (identifyContact rt clk db e p))) = length (rows db)"
  using identify_covered_relinked [OF assms, of rt clk] by (auto dest: list_all2_lengthD)

text \<open>
  C8, as the code has it. On a table whose ids are unique, let the observation supply at
  least one value and let every supplied value occur in a live member of one group \<open>g\<close>.
  Then neither of two calls with that observation creates a row. The second call leaves
  the table as the first call left it, so also the group's member count, provided the
  store would have returned the matched rows to it in the order it returned them to the
  first call. And when at most one primary is matched, both calls leave the table as it
  was before the first, so the group has as many members as before. With more than one
  matched primary the first call may demote and repoint rows, which changes the group's
  member count without creating a contact.
\<close>

theorem identify_twice_when_covered:
  assumes dist: "distinct (map cid (rows db))"
    and some: "truthy e \<or> truthy p"
    and ge: "truthy e \<Longrightarrow> e \<in> email ` set (getLinkedContacts rt (Some g) db)"
    and gp: "truthy p \<Longrightarrow> p \<in> phoneNumber ` set (getLinkedContacts rt (Some g) db)"
  shows "let db1 = snd (identifyContact rt clk db e p);
             db2 = snd (identifyContact rt' clk' db1 e p)
         in length (rows db1) = length (rows db)
          \<and> length (rows db2) = length (rows db1)
          \<and> (findContactsByEmailOrPhone rt' e p db = findContactsByEmailOrPhone rt e p db
               \<longrightarrow> db2 = db1
                   \<and> length (getLinkedContacts rt (Some g) db2)
                       = length (getLinkedContacts rt (Some g) db1))
          \<and> (length (filter (\<lambda>c. linkPrecedence c = Primary)
                       (findContactsByEmailOrPhone rt e p db)) \<le> 1
               \<longrightarrow> db1 = db \<and> db2 = db
                   \<and> length (getLinkedContacts rt (Some g) db2)
                       = length (getLinkedContacts rt (Some g) db))"
proof -
  define db1 where "db1 = snd (identifyContact rt clk db e p)"
  define db2 where "db2 = snd (identifyContact rt' clk' db1 e p)"
  have ce: "truthy e \<Longrightarrow> \<exists>c\<in>set (rows db). deletedAt c = None \<and> email c = e"
    using ge by (auto simp: set_getLinkedContacts)
  have cp: "truthy p \<Longrightarrow> \<exists>c\<in>set (rows db). deletedAt c = None \<and> phoneNumber c = p"
    using gp by (auto simp: set_getLinkedContacts)
  obtain S m where rel0: "list_all2 (relinked S m) (rows db) (rows db1)"
    using identify_covered_relinked [OF ce cp some, of rt clk] unfolding db1_def by blast
  have A: "length (rows db1) = length (rows db)"
    using rel0 by (simp add: list_all2_lengthD)
  have ce1: "truthy e \<Longrightarrow> \<exists>c\<in>set (rows db1). deletedAt c = None \<and> email c = e"
    by (rule covered_relinked [OF rel0 ce]) (simp_all add: relinked_fields)
  have cp1: "truthy p \<Longrightarrow> \<exists>c\<in>set (rows db1). deletedAt c = None \<and> phoneNumber c = p"
    by (rule covered_relinked [OF rel0 cp]) (simp_all add: relinked_fields)
  have B: "length (rows db2) = length (rows db1)"
    unfolding db2_def using ce1 cp1 some by (rule identify_covered_rows)
  have unchanged: "snd (identifyContact r c d e p) = d"
    if "truthy e \<Longrightarrow> \<exists>c\<in>set (rows d). deletedAt c = None \<and> email c = e"
      and "truthy p \<Longrightarrow> \<exists>c\<in>set (rows d). deletedAt c = None \<and> phoneNumber c = p"
      and "length (filter (\<lambda>c. linkPrecedence c = Primary) (findContactsByEmailOrPhone r e p d)) \<le> 1"
    for r c d
  proof -
    have "\<forall>ps ss. analyzeContacts (findContactsByEmailOrPhone r e p d) e p \<noteq> MergePrimaries ps ss"
    proof (intro allI notI)
      fix ps ss
      assume a: "analyzeContacts (findContactsByEmailOrPhone r e p d) e p = MergePrimaries ps ss"
      from analyze_MergeD [OF a]
      have "ps = filter (\<lambda>c. linkPrecedence c = Primary) (findContactsByEmailOrPhone r e p d)"
        and "\<exists>a b rest. ps = a # b # rest" by auto
      then show False using that(3) by auto
    qed
    with that(1,2) some show ?thesis by (intro identify_nonmerge_unchanged) blast+
  qed
  have C: "db2 = db1"
    if same: "findContactsByEmailOrPhone rt' e p db = findContactsByEmailOrPhone rt e p db"
  proof (cases "\<exists>ps ss. analyzeContacts (findContactsByEmailOrPhone rt e p db) e p = MergePrimaries ps ss")
    case False
    then have nm: "\<forall>ps ss. analyzeContacts (findContactsByEmailOrPhone rt e p db) e p \<noteq> MergePrimaries ps ss"
      by blast
    have "db1 = db"
      unfolding db1_def using ce cp some nm by (intro identify_nonmerge_unchanged) blast+
    moreover have "snd (identifyContact rt' clk' db e p) = db"
      using ce cp some nm unfolding same [symmetric]
      by (intro identify_nonmerge_unchanged) blast+
    ultimately show ?thesis unfolding db2_def by simp
  next
    case True
    then obtain ps ss
      where an: "analyzeContacts (findContactsByEmailOrPhone rt e p db) e p = MergePrimaries ps ss"
      by blast
    show ?thesis
    proof (cases "truthy p \<and> \<not> phone_regex (the p)")
      case True
      then show ?thesis unfolding db2_def db1_def by (simp add: identify_invalid_unchanged)
    next
      case False
      then have ok: "truthy p \<Longrightarrow> phone_regex (the p)" by blast
      define m' where "m' = cid (oldest_of rt (hd ps) (tl ps))"
      have rel: "list_all2 (relinked (relink_targets ps ss m') m') (rows db) (rows db1)"
        unfolding m'_def db1_def using ok ce cp some an by (rule identify_merge_relinked)
      have ps: "ps = filter (\<lambda>c. linkPrecedence c = Primary) (findContactsByEmailOrPhone rt e p db)"
        using analyze_MergeD [OF an] by auto
      have "length (filter (\<lambda>c. linkPrecedence c = Primary) (findContactsByEmailOrPhone rt' e p db1)) \<le> 1"
        using dist ps rel by (rule after_merge_one_primary)
      with ce1 cp1 show ?thesis unfolding db2_def by (intro unchanged) blast+
    qed
  qed
  have D: "db1 = db \<and> db2 = db"
    if le1: "length (filter (\<lambda>c. linkPrecedence c = Primary) (findContactsByEmailOrPhone rt e p db)) \<le> 1"
  proof -
    have d1: "db1 = db"
      unfolding db1_def using ce cp le1 by (intro unchanged) blast+
    have "length (filter (\<lambda>c. linkPrecedence c = Primary) (findContactsByEmailOrPhone rt' e p db)) \<le> 1"
      using le1 matched_count_order [of _ rt e p db rt'] by simp
    with ce cp have "snd (identifyContact rt' clk' db e p) = db" by (intro unchanged) blast+
    with d1 show ?thesis unfolding db2_def by simp
  qed
  have "length (rows db1) = length (rows db)
          \<and> length (rows db2) = length (rows db1)
          \<and> (findContactsByEmailOrPhone rt' e p db = findContactsByEmailOrPhone rt e p db
               \<longrightarrow> db2 = db1
                   \<and> length (getLinkedContacts rt (Some g) db2)
                       = length (getLinkedContacts rt (Some g) db1))
          \<and> (length (filter (\<lambda>c. linkPrecedence c = Primary)
                       (findContactsByEmailOrPhone rt e p db)) \<le> 1
               \<longrightarrow> db1 = db \<and> db2 = db
                   \<and> length (getLinkedContacts rt (Some g) db2)
                       = length (getLinkedContacts rt (Some g) db))"
    using A B C D by auto
  then show ?thesis unfolding Let_def db2_def db1_def .
qed

theorem identify_twice_when_covered_witness:
  "distinct (map cid (rows covered_db))
   \<and> (truthy (Some ''a@x.com'') \<or> truthy (Some ''2222222222''))
   \<and> Some ''a@x.com'' \<in> email ` set (getLinkedContacts rowid_order (Some 1) covered_db)
   \<and> Some ''2222222222'' \<in> phoneNumber ` set (getLinkedContacts rowid_order (Some 1) covered_db)
   \<and> length (rows (after_calls rowid_order covered_db
                      [(10, Some ''a@x.com'', Some ''2222222222'')]))
       = length (rows covered_db)
   \<and> after_calls rowid_order covered_db
        [(10, Some ''a@x.com'', Some ''2222222222''), (20, Some ''a@x.com'', Some ''2222222222'')]
       = after_calls rowid_order covered_db [(10, Some ''a@x.com'', Some ''2222222222'')]
   \<and> after_calls rowid_order covered_db [(10, Some ''a@x.com'', Some ''2222222222'')]
       = \<lparr>rows = [live_contact 1 (Some ''a@x.com'') (Some ''1111111111'') None Primary 1 1,
                 live_contact 2 (Some ''b@x.com'') (Some ''2222222222'') (Some 1) Secondary 2 10,
                 live_contact 3 (Some ''c@x.com'') (Some ''2222222222'') (Some 1) Secondary 3 3],
          seq = 3\<rparr>"
proof -
  have h1: "distinct (map cid (rows covered_db))"
    by code_simp
  have h3: "truthy (Some ''a@x.com'') \<or> truthy (Some ''2222222222'')"
    by simp
  have h4: "Some ''a@x.com'' \<in> email ` set (getLinkedContacts rowid_order (Some 1) covered_db)"
    by code_simp
  have h5: "Some ''2222222222'' \<in> phoneNumber ` set (getLinkedContacts rowid_order (Some 1) covered_db)"
    by code_simp
  have c: "after_calls rowid_order covered_db [(10, Some ''a@x.com'', Some ''2222222222'')]
       = \<lparr>rows = [live_contact 1 (Some ''a@x.com'') (Some ''1111111111'') None Primary 1 1,
                 live_contact 2 (Some ''b@x.com'') (Some ''2222222222'') (Some 1) Secondary 2 10,
                 live_contact 3 (Some ''c@x.com'') (Some ''2222222222'') (Some 1) Secondary 3 3],
          seq = 3\<rparr>"
    by code_simp
  note t = identify_twice_when_covered
             [OF h1 h3 h4 h5, where clk = "at_time 10" and clk' = "at_time 20"
                and rt' = rowid_order, unfolded Let_def]
  have t1: "length (rows (after_calls rowid_order covered_db
                      [(10, Some ''a@x.com'', Some ''2222222222'')]))
       = length (rows covered_db)"
    using t by (simp add: after_calls_def)
  have t3: "after_calls rowid_order covered_db
        [(10, Some ''a@x.com'', Some ''2222222222''), (20, Some ''a@x.com'', Some ''2222222222'')]
       = after_calls rowid_order covered_db [(10, Some ''a@x.com'', Some ''2222222222'')]"
    using t by (simp add: after_calls_def)
  show ?thesis
    by (rule conjI [OF h1 conjI [OF h3 conjI [OF h4 conjI [OF h5 conjI [OF t1 conjI [OF t3 c]]]]]])
qed

text \<open>
  C8 as stated fails in two ways. On \<open>covered_db\<close> both supplied values occur in group 1,
  which has two members; the first call matches two primaries and demotes contact 2
  under contact 1, so after the two calls the group has three members. And an
  observation that supplies no value matches nothing: each call, the second included,
  creates a new primary.
\<close>

theorem identify_twice_counterexamples:
  "Some ''a@x.com'' \<in> email ` set (getLinkedContacts rowid_order (Some 1) covered_db)
   \<and> Some ''2222222222'' \<in> phoneNumber ` set (getLinkedContacts rowid_order (Some 1) covered_db)
   \<and> length (getLinkedContacts rowid_order (Some 1) covered_db) = 2
   \<and> length (getLinkedContacts rowid_order (Some 1)
               (after_calls rowid_order covered_db
                  [(10, Some ''a@x.com'', Some ''2222222222''),
                   (20, Some ''a@x.com'', Some ''2222222222'')])) = 3
   \<and> length (rows covered_db) = 3
   \<and> length (rows (after_calls rowid_order covered_db [(10, None, None)])) = 4
   \<and> length (rows (after_calls rowid_order covered_db [(10, None, None), (20, None, None)])) = 5"
  by code_simp

section \<open>Where the code departs from the specification\<close>

text \<open>
  C2. After a merge, no secondary should point at a secondary anywhere in the table. The
  merge repoints only the secondaries of the matched set. Here contact 3 was attached to
  primary 2 by the third call and matches neither value of the fourth; the fourth call
  demotes contact 2 under contact 1 and leaves contact 3 pointing at contact 2, now a
  secondary. The view of the merged group lacks contact 3 and its email.
\<close>

theorem merge_leaves_secondary_on_demoted_primary:
  "identifyContact rowid_order (at_time 4)
     (after_calls rowid_order \<lparr>rows = [], seq = 0\<rparr>
        [(1, Some ''a@x.com'', Some ''1111111111''), (2, Some ''b@x.com'', Some ''2222222222''),
         (3, Some ''c@x.com'', Some ''2222222222'')])
     (Some ''a@x.com'') (Some ''2222222222'')
   = (Inr \<lparr>primaryContactId = Some 1, emails = [''b@x.com'', ''a@x.com''],
           phoneNumbers = [''2222222222'', ''1111111111''], secondaryContactIds = [2]\<rparr>,
      \<lparr>rows = [live_contact 1 (Some ''a@x.com'') (Some ''1111111111'') None Primary 1 1,
               live_contact 2 (Some ''b@x.com'') (Some ''2222222222'') (Some 1) Secondary 2 4,
               live_contact 3 (Some ''c@x.com'') None (Some 2) Secondary 3 3],
       seq = 3\<rparr>)"
  by code_simp

text \<open>
  C3. The group fetch should list the primary first. \<open>ORDER BY linkPrecedence DESC\<close> sorts
  the text \<open>'secondary'\<close> before the text \<open>'primary'\<close> (lemma \<open>precedence_text_order\<close>), so
  the secondaries come first, and the emails of the view start with a secondary's email.
  The rows returned and the secondary ids are as specified.
\<close>

theorem group_fetch_lists_secondaries_first:
  "identifyContact rt (at_time 2)
     (after_calls rt \<lparr>rows = [], seq = 0\<rparr> [(1, Some ''a@x.com'', Some ''1111111111'')])
     (Some ''b@x.com'') (Some ''1111111111'')
   = (Inr \<lparr>primaryContactId = Some 1, emails = [''b@x.com'', ''a@x.com''],
           phoneNumbers = [''1111111111''], secondaryContactIds = [2]\<rparr>,
      \<lparr>rows = [live_contact 1 (Some ''a@x.com'') (Some ''1111111111'') None Primary 1 1,
               live_contact 2 (Some ''b@x.com'') None (Some 1) Secondary 2 2],
       seq = 2\<rparr>)
  \<and> getLinkedContacts rt (Some 1)
       \<lparr>rows = [live_contact 1 (Some ''a@x.com'') (Some ''1111111111'') None Primary 1 1,
               live_contact 2 (Some ''b@x.com'') None (Some 1) Secondary 2 2],
        seq = 2\<rparr>
     = [live_contact 2 (Some ''b@x.com'') None (Some 1) Secondary 2 2,
        live_contact 1 (Some ''a@x.com'') (Some ''1111111111'') None Primary 1 1]"
  by code_simp

text \<open>
  C5. An empty-string email should behave as \<open>null\<close> and be stored as \<open>null\<close>. On the empty
  table the call with \<open>""\<close> stores the empty string where the call with \<open>null\<close> stores NULL.
  And where the phone is held by a secondary whose email is NULL, the call with \<open>""\<close>
  returns the group's view while the call with \<open>null\<close> takes that secondary for an exact
  duplicate and fails.
\<close>

theorem empty_email_is_not_null:
  "snd (identifyContact rt (at_time 1) \<lparr>rows = [], seq = 0\<rparr> (Some '''') (Some ''5551230000''))
     = \<lparr>rows = [live_contact 1 (Some '''') (Some ''5551230000'') None Primary 1 1], seq = 1\<rparr>
  \<and> snd (identifyContact rt (at_time 1) \<lparr>rows = [], seq = 0\<rparr> None (Some ''5551230000''))
     = \<lparr>rows = [live_contact 1 None (Some ''5551230000'') None Primary 1 1], seq = 1\<rparr>
  \<and> fst (identifyContact rt (at_time 3)
       (after_calls rt \<lparr>rows = [], seq = 0\<rparr>
          [(1, Some ''a@x.com'', Some ''1111111111''), (2, Some ''a@x.com'', Some ''5551230000'')])
       (Some '''') (Some ''5551230000''))
     = Inr \<lparr>primaryContactId = Some 1, emails = [''a@x.com''],
           phoneNumbers = [''5551230000'', ''1111111111''], secondaryContactIds = [2]\<rparr>
  \<and> fst (identifyContact rt (at_time 3)
       (after_calls rt \<lparr>rows = [], seq = 0\<rparr>
          [(1, Some ''a@x.com'', Some ''1111111111''), (2, Some ''a@x.com'', Some ''5551230000'')])
       None (Some ''5551230000''))
     = Inl TypeError"
  by code_simp

text \<open>
  C6. An exact duplicate should return the view of the matched contact's primary, also
  when the matched contact is a secondary whose primary is not in the matched set.
  \<open>findPrimaryInChain\<close> looks for the primary only among the matched contacts. Here
  contact 2 was demoted under contact 1 by the third call; the fourth call repeats
  contact 2's own email and phone, matches contact 2 alone, finds no primary, and reading
  \<open>.id\<close> of \<open>undefined\<close> throws. The table is unchanged.
\<close>

theorem exact_duplicate_on_secondary_faults:
  "identifyContact rowid_order (at_time 4)
     (after_calls rowid_order \<lparr>rows = [], seq = 0\<rparr>
        [(1, Some ''a@x.com'', Some ''1111111111''), (2, Some ''b@x.com'', Some ''2222222222''),
         (3, Some ''a@x.com'', Some ''2222222222'')])
     (Some ''b@x.com'') (Some ''2222222222'')
   = (Inl TypeError,
      \<lparr>rows = [live_contact 1 (Some ''a@x.com'') (Some ''1111111111'') None Primary 1 1,
               live_contact 2 (Some ''b@x.com'') (Some ''2222222222'') (Some 1) Secondary 2 3],
       seq = 2\<rparr>)"
  by code_simp

end
